theory Spec2Isabelle
  imports Main
begin

section \<open>Authorization middleware (authorizeUserAction)\<close>

text \<open>
  Modelled from the spec: the role enumeration \<open>UserRole\<close> of auth.entity is not part of
  the sources at hand; the data model names the two roles \<open>USER\<close> and \<open>ADMIN\<close>. The
  middleware only compares the role with \<open>UserRole.ADMIN\<close>.
\<close>

datatype UserRole = USER | ADMIN

text \<open>The authenticated user \<open>req.user\<close> (IAuthUser): the two fields the middleware reads.\<close>

record IAuthUser =
  id_auth :: string
  role :: UserRole

datatype ErrorCode = UNAUTHORIZED | BAD_REQUEST | PERMISSION_DENIED

text \<open>\<open>new ApiError(message, statusCode, errorCode)\<close>, thrown by the middleware.\<close>

record ApiError =
  message :: string
  statusCode :: nat
  errorCode :: ErrorCode

text \<open>
  \<open>String.prototype.toUpperCase\<close> on the request verb. HTTP method tokens are ASCII, and
  the only use of the result is the comparison with \<open>"DELETE"\<close>, so the letters
  \<open>a\<close> to \<open>z\<close> are mapped to \<open>A\<close> to \<open>Z\<close> and every other character is kept.
\<close>

definition toUpperCase_char :: "char \<Rightarrow> char" where
  "toUpperCase_char c =
     (let n = (of_char c :: nat) in if 97 \<le> n \<and> n \<le> 122 then char_of (n - 32) else c)"

definition toUpperCase :: "string \<Rightarrow> string" where
  "toUpperCase s = map toUpperCase_char s"

definition default_message :: string where
  "default_message = ''Action not allowed on yourself''"

text \<open>
  \<open>authorizeUserAction(message)(req, res, next)\<close>. The request is given by the three
  things the middleware reads: \<open>req.user\<close> (absent when nobody is authenticated),
  \<open>req.params?.id\<close> and \<open>req.method\<close> (each possibly undefined). \<open>Inl e\<close> is
  \<open>throw e\<close>, \<open>Inr ()\<close> is the call of \<open>next()\<close>.
\<close>

definition authorizeUserAction ::
  "string \<Rightarrow> IAuthUser option \<Rightarrow> string option \<Rightarrow> string option \<Rightarrow> ApiError + unit" where
  "authorizeUserAction msg reqUser paramsId reqMethod =
     (let method = map_option toUpperCase reqMethod in
      case reqUser of
        None \<Rightarrow> Inl \<lparr>message = ''Unauthorized request'', statusCode = 401, errorCode = UNAUTHORIZED\<rparr>
      | Some user \<Rightarrow>
          (case paramsId of
             None \<Rightarrow> Inl \<lparr>message = ''Target user not specified'', statusCode = 400,
                          errorCode = BAD_REQUEST\<rparr>
           | Some targetUserId \<Rightarrow>
               if targetUserId = [] then
                 Inl \<lparr>message = ''Target user not specified'', statusCode = 400,
                      errorCode = BAD_REQUEST\<rparr>
               else
                 (let isSelf = (id_auth user = targetUserId);
                      isAdmin = (role user = ADMIN) in
                  if isAdmin then
                    (if isSelf \<and> method = Some ''DELETE'' then
                       Inl \<lparr>message = msg, statusCode = 403, errorCode = PERMISSION_DENIED\<rparr>
                     else Inr ())
                  else if isSelf then Inr ()
                  else Inl \<lparr>message = ''You do not have permission to perform this action'',
                            statusCode = 403, errorCode = PERMISSION_DENIED\<rparr>)))"

text \<open>
  The decision matrix in the words of the specification, over the three booleans
  \<open>isSelf\<close>, \<open>isAdmin\<close> and "the method is DELETE".
\<close>

datatype decision = Allow | Deny ApiError

fun decide_spec :: "string \<Rightarrow> bool \<Rightarrow> bool \<Rightarrow> bool \<Rightarrow> decision" where
  "decide_spec msg True True True =
     Deny \<lparr>message = msg, statusCode = 403, errorCode = PERMISSION_DENIED\<rparr>"
| "decide_spec msg isSelf True isDelete = Allow"
| "decide_spec msg True False isDelete = Allow"
| "decide_spec msg False False isDelete =
     Deny \<lparr>message = ''You do not have permission to perform this action'',
           statusCode = 403, errorCode = PERMISSION_DENIED\<rparr>"

fun decision_of :: "ApiError + unit \<Rightarrow> decision" where
  "decision_of (Inl e) = Deny e"
| "decision_of (Inr u) = Allow"

text \<open>The method is DELETE: \<open>method === "DELETE"\<close> for \<open>method = req.method?.toUpperCase()\<close>.\<close>

definition isDelete :: "string option \<Rightarrow> bool" where
  "isDelete reqMethod = (map_option toUpperCase reqMethod = Some ''DELETE'')"

section \<open>The user collection and the storage calls of the repository\<close>

type_synonym uid = string

text \<open>
  Modelled from the spec: the mongoose model \<open>User\<close> (user.model) is not part of the
  sources at hand. A user document carries its identity and the two denormalised arrays
  \<open>followers\<close> and \<open>following\<close> of user ids; \<open>fullName\<close> and \<open>avatar\<close> are the
  profile fields the follower listings project. The other profile fields are never read or
  written by the follow operations and are left out.
\<close>

record user =
  uid :: uid
  fullName :: string
  avatar :: "string option"
  followers :: "uid list"
  following :: "uid list"

text \<open>The collection: its documents, in the order a scan of the store returns them.\<close>

type_synonym collection = "user list"

text \<open>\<open>findById\<close>: the document with the given \<open>_id\<close>, or null.\<close>

fun lookupDoc :: "collection \<Rightarrow> uid \<Rightarrow> user option" where
  "lookupDoc [] i = None"
| "lookupDoc (d # ds) i = (if uid d = i then Some d else lookupDoc ds i)"

text \<open>
  The write of \<open>findByIdAndUpdate\<close>: the document with the given \<open>_id\<close> is replaced by its
  update; when no document has that \<open>_id\<close> nothing is written and nothing is raised (the
  call resolves to null, there is no upsert).
\<close>

fun updateDoc :: "uid \<Rightarrow> (user \<Rightarrow> user) \<Rightarrow> collection \<Rightarrow> collection" where
  "updateDoc i f [] = []"
| "updateDoc i f (d # ds) = (if uid d = i then f d # ds else d # updateDoc i f ds)"

text \<open>The update operators \<open>$addToSet\<close> and \<open>$pull\<close> on an array field.\<close>

definition addToSet :: "uid \<Rightarrow> uid list \<Rightarrow> uid list" where
  "addToSet v xs = (if v \<in> set xs then xs else xs @ [v])"

definition pull :: "uid \<Rightarrow> uid list \<Rightarrow> uid list" where
  "pull v xs = filter (\<lambda>x. x \<noteq> v) xs"

datatype field = Followers | Following

datatype update = AddToSet field uid | Pull field uid

fun applyUpdate :: "update \<Rightarrow> user \<Rightarrow> user" where
  "applyUpdate (AddToSet Followers v) d = d\<lparr>followers := addToSet v (followers d)\<rparr>"
| "applyUpdate (AddToSet Following v) d = d\<lparr>following := addToSet v (following d)\<rparr>"
| "applyUpdate (Pull Followers v) d = d\<lparr>followers := pull v (followers d)\<rparr>"
| "applyUpdate (Pull Following v) d = d\<lparr>following := pull v (following d)\<rparr>"

text \<open>
  The calls the repository makes on the store. \<open>FindOne t u\<close> is
  \<open>findOne({_id: t, followers: u})\<close>, \<open>FindIn ids\<close> is \<open>find({_id: {$in: ids}})\<close>.
\<close>

datatype call =
    StartSession
  | StartTransaction
  | FindByIdAndUpdate uid update
  | CommitTransaction
  | AbortTransaction
  | EndSession
  | FindById uid
  | FindOne uid uid
  | FindIn "uid list"

text \<open>
  The store is an external collaborator: any call on it may raise (storage unavailable,
  transaction conflict, ...). Which calls raise is a parameter of every operation.
\<close>

type_synonym faults = "call \<Rightarrow> bool"

definition no_faults :: faults where
  "no_faults = (\<lambda>c. False)"

text \<open>
  A session with its transaction: \<open>durable\<close> is the committed collection that every other
  reader sees, \<open>working\<close> is the transaction's own view with its uncommitted writes,
  \<open>trace\<close> lists the calls made so far. A commit makes the working view durable in one
  step; an abort discards it. A call that raises has no effect on either view: in
  particular a commit that raises has made nothing durable (the all-or-nothing commit the
  repository relies on).
\<close>

record session =
  durable :: collection
  working :: collection
  trace :: "call list"

datatype step = Done session | Threw session

definition storageCall :: "faults \<Rightarrow> call \<Rightarrow> (session \<Rightarrow> session) \<Rightarrow> session \<Rightarrow> step" where
  "storageCall flt c effect s =
     (let s' = s\<lparr>trace := trace s @ [c]\<rparr> in if flt c then Threw s' else Done (effect s'))"

definition startSession :: "faults \<Rightarrow> collection \<Rightarrow> step" where
  "startSession flt st =
     storageCall flt StartSession (\<lambda>s. s) \<lparr>durable = st, working = st, trace = []\<rparr>"

definition startTransaction :: "faults \<Rightarrow> session \<Rightarrow> step" where
  "startTransaction flt = storageCall flt StartTransaction (\<lambda>s. s\<lparr>working := durable s\<rparr>)"

definition findByIdAndUpdate :: "faults \<Rightarrow> uid \<Rightarrow> update \<Rightarrow> session \<Rightarrow> step" where
  "findByIdAndUpdate flt i u =
     storageCall flt (FindByIdAndUpdate i u)
       (\<lambda>s. s\<lparr>working := updateDoc i (applyUpdate u) (working s)\<rparr>)"

definition commitTransaction :: "faults \<Rightarrow> session \<Rightarrow> step" where
  "commitTransaction flt = storageCall flt CommitTransaction (\<lambda>s. s\<lparr>durable := working s\<rparr>)"

text \<open>
  \<open>session.abortTransaction()\<close>. Once \<open>commitTransaction\<close> has been called on the session
  the driver refuses the abort: the call raises, whether or not the commit went through.
  Otherwise the abort discards the working view, unless the store makes the call raise.
\<close>

definition abortTransaction :: "faults \<Rightarrow> session \<Rightarrow> step" where
  "abortTransaction flt s =
     (if CommitTransaction \<in> set (trace s) then Threw (s\<lparr>trace := trace s @ [AbortTransaction]\<rparr>)
      else storageCall flt AbortTransaction (\<lambda>s. s\<lparr>working := durable s\<rparr>) s)"

text \<open>\<open>session.endSession()\<close> is not awaited: nothing it raises reaches the caller.\<close>

definition endSession :: "session \<Rightarrow> session" where
  "endSession s = s\<lparr>trace := trace s @ [EndSession]\<rparr>"

text \<open>Sequencing of awaited calls inside a \<open>try\<close> block: the first that raises ends the block.\<close>

fun andThen :: "step \<Rightarrow> (session \<Rightarrow> step) \<Rightarrow> step" where
  "andThen (Done s) f = f s"
| "andThen (Threw s) f = Threw s"

section \<open>The follow operations of the repository\<close>

text \<open>
  What a call of an \<open>async\<close> method gives its caller: the promise resolves to a value, or
  it is rejected with the error that escaped the method.
\<close>

datatype 'a outcome = Returned 'a | Rejected

record reply =
  outcome :: "bool outcome"
  store :: collection
  calls :: "call list"

definition finish :: "bool outcome \<Rightarrow> session \<Rightarrow> reply" where
  "finish r s = \<lparr>outcome = r, store = durable s, calls = trace s\<rparr>"

text \<open>
  \<open>followUser(userId, targetUserId)\<close>. The session and the transaction are started before
  the \<open>try\<close> block; the two updates and the commit are inside it; the \<open>catch\<close> block
  awaits the abort and then returns false, so an abort that raises rejects the promise.
\<close>

definition followUser :: "faults \<Rightarrow> collection \<Rightarrow> uid \<Rightarrow> uid \<Rightarrow> reply" where
  "followUser flt st userId targetUserId =
     (case startSession flt st of
        Threw s \<Rightarrow> finish Rejected s
      | Done s0 \<Rightarrow>
          (case startTransaction flt s0 of
             Threw s \<Rightarrow> finish Rejected s
           | Done s1 \<Rightarrow>
               (case andThen (andThen
                       (findByIdAndUpdate flt targetUserId (AddToSet Followers userId) s1)
                       (findByIdAndUpdate flt userId (AddToSet Following targetUserId)))
                       (commitTransaction flt) of
                  Done s \<Rightarrow> finish (Returned True) (endSession s)
                | Threw s \<Rightarrow>
                    (case abortTransaction flt s of
                       Threw s' \<Rightarrow> finish Rejected s'
                     | Done s' \<Rightarrow> finish (Returned False) (endSession s')))))"

text \<open>
  \<open>removeFollow(userId, targetUserId)\<close>: the same shape with \<open>$pull\<close>, behind the guard
  \<open>if (userId === targetUserId) return false\<close>.
\<close>

definition removeFollow :: "faults \<Rightarrow> collection \<Rightarrow> uid \<Rightarrow> uid \<Rightarrow> reply" where
  "removeFollow flt st userId targetUserId =
     (if userId = targetUserId then \<lparr>outcome = Returned False, store = st, calls = []\<rparr>
      else
       (case startSession flt st of
          Threw s \<Rightarrow> finish Rejected s
        | Done s0 \<Rightarrow>
            (case startTransaction flt s0 of
               Threw s \<Rightarrow> finish Rejected s
             | Done s1 \<Rightarrow>
                 (case andThen (andThen
                         (findByIdAndUpdate flt targetUserId (Pull Followers userId) s1)
                         (findByIdAndUpdate flt userId (Pull Following targetUserId)))
                         (commitTransaction flt) of
                    Done s \<Rightarrow> finish (Returned True) (endSession s)
                  | Threw s \<Rightarrow>
                      (case abortTransaction flt s of
                         Threw s' \<Rightarrow> finish Rejected s'
                       | Done s' \<Rightarrow> finish (Returned False) (endSession s'))))))"

section \<open>The read operations of the repository\<close>

text \<open>The summary \<open>{id, fullName, avatar}\<close> of a user in a listing (IFollowUser).\<close>

record IFollowUser =
  fu_id :: uid
  fu_fullName :: string
  fu_avatar :: "string option"

definition summary :: "user \<Rightarrow> IFollowUser" where
  "summary u = \<lparr>fu_id = uid u, fu_fullName = fullName u, fu_avatar = avatar u\<rparr>"

text \<open>
  \<open>findFollowers(userId)\<close> and \<open>findFollowing(userId)\<close>: two reads, each inside the
  \<open>try\<close> block whose \<open>catch\<close> returns the empty array.
\<close>

definition findFollowers :: "faults \<Rightarrow> collection \<Rightarrow> uid \<Rightarrow> IFollowUser list" where
  "findFollowers flt st userId =
     (if flt (FindById userId) then []
      else case lookupDoc st userId of
             None \<Rightarrow> []
           | Some u \<Rightarrow>
               if length (followers u) = 0 then []
               else if flt (FindIn (followers u)) then []
               else map summary (filter (\<lambda>d. uid d \<in> set (followers u)) st))"

definition findFollowing :: "faults \<Rightarrow> collection \<Rightarrow> uid \<Rightarrow> IFollowUser list" where
  "findFollowing flt st userId =
     (if flt (FindById userId) then []
      else case lookupDoc st userId of
             None \<Rightarrow> []
           | Some u \<Rightarrow>
               if length (following u) = 0 then []
               else if flt (FindIn (following u)) then []
               else map summary (filter (\<lambda>d. uid d \<in> set (following u)) st))"

text \<open>
  \<open>isFollowing(userId, targetUserId)\<close>: \<open>!!user\<close> for the document found by
  \<open>findOne({_id: targetUserId, followers: userId})\<close>; the \<open>catch\<close> returns false.
\<close>

definition isFollowing :: "faults \<Rightarrow> collection \<Rightarrow> uid \<Rightarrow> uid \<Rightarrow> bool" where
  "isFollowing flt st userId targetUserId =
     (if flt (FindOne targetUserId userId) then False
      else case find (\<lambda>d. uid d = targetUserId \<and> userId \<in> set (followers d)) st of
             None \<Rightarrow> False
           | Some u \<Rightarrow> True)"

text \<open>
  \<open>getFollowCounts(userId)\<close>: null when no document is found, the lengths of the two
  arrays otherwise; the \<open>catch\<close> returns null.
\<close>

record IFollowCount =
  followerCount :: nat
  followingCount :: nat

definition getFollowCounts :: "faults \<Rightarrow> collection \<Rightarrow> uid \<Rightarrow> IFollowCount option" where
  "getFollowCounts flt st userId =
     (if flt (FindById userId) then None
      else case lookupDoc st userId of
             None \<Rightarrow> None
           | Some u \<Rightarrow> Some \<lparr>followerCount = length (followers u),
                              followingCount = length (following u)\<rparr>)"

section \<open>The follow graph read off a collection\<close>

text \<open>
  The followers and the following of an id: the arrays of its document as sets; an id that
  resolves to no document has neither.
\<close>

definition followersOf :: "collection \<Rightarrow> uid \<Rightarrow> uid set" where
  "followersOf st b = (case lookupDoc st b of None \<Rightarrow> {} | Some u \<Rightarrow> set (followers u))"

definition followingOf :: "collection \<Rightarrow> uid \<Rightarrow> uid set" where
  "followingOf st a = (case lookupDoc st a of None \<Rightarrow> {} | Some u \<Rightarrow> set (following u))"

text \<open>Invariant I1 (dual consistency) of the specification, for distinct ids.\<close>

definition dualConsistent :: "collection \<Rightarrow> bool" where
  "dualConsistent st =
     (\<forall>a b. a \<noteq> b \<longrightarrow> (a \<in> followersOf st b \<longleftrightarrow> b \<in> followingOf st a))"

text \<open>Invariant I2 (set semantics): no array lists an id twice.\<close>

definition setSemantics :: "collection \<Rightarrow> bool" where
  "setSemantics st = (\<forall>d \<in> set st. distinct (followers d) \<and> distinct (following d))"

section \<open>Sample users\<close>

definition alice :: user where
  "alice = \<lparr>uid = ''alice'', fullName = ''Alice'', avatar = None, followers = [], following = []\<rparr>"

definition bob :: user where
  "bob = \<lparr>uid = ''bob'', fullName = ''Bob'', avatar = None, followers = [], following = []\<rparr>"

definition carol :: user where
  "carol = \<lparr>uid = ''carol'', fullName = ''Carol'', avatar = None,
            followers = [''alice''], following = []\<rparr>"

text \<open>The collection in which \<open>alice\<close> follows \<open>bob\<close>.\<close>

definition alice_follows_bob :: collection where
  "alice_follows_bob = [alice\<lparr>following := [''bob'']\<rparr>, bob\<lparr>followers := [''alice'']\<rparr>]"

section \<open>Properties of the authorization middleware\<close>

lemma toUpperCase_delete: "toUpperCase ''delete'' = ''DELETE''"
  by code_simp

lemma authorizeUserAction_authenticated:
  assumes "t \<noteq> []"
  shows "authorizeUserAction msg (Some u) (Some t) m =
     (if role u = ADMIN then
        (if id_auth u = t \<and> isDelete m then
           Inl \<lparr>message = msg, statusCode = 403, errorCode = PERMISSION_DENIED\<rparr>
         else Inr ())
      else if id_auth u = t then Inr ()
      else Inl \<lparr>message = ''You do not have permission to perform this action'',
                statusCode = 403, errorCode = PERMISSION_DENIED\<rparr>)"
  using assms unfolding authorizeUserAction_def isDelete_def Let_def by simp

text \<open>
  C3. For an authenticated actor and a non-empty target id, the middleware decides exactly
  as the matrix of the specification does, and the decision depends on the request only
  through \<open>isSelf\<close>, \<open>isAdmin\<close> and whether the method is DELETE: an admin is denied
  only the deletion of itself, a plain user is allowed on itself and denied on anybody else.
\<close>

theorem authorizeUserAction_matrix:
  assumes "t \<noteq> []"
  shows "decision_of (authorizeUserAction msg (Some u) (Some t) m)
           = decide_spec msg (id_auth u = t) (role u = ADMIN) (isDelete m)"
  using authorizeUserAction_authenticated [OF assms, of msg u m]
  by (cases "id_auth u = t"; cases "role u = ADMIN"; cases "isDelete m") simp_all

theorem authorizeUserAction_matrix_witness:
  "''a1'' \<noteq> [] \<and>
   decision_of (authorizeUserAction default_message
       (Some \<lparr>id_auth = ''a1'', role = ADMIN\<rparr>) (Some ''a1'') (Some ''delete''))
     = Deny \<lparr>message = default_message, statusCode = 403, errorCode = PERMISSION_DENIED\<rparr>"
  using authorizeUserAction_matrix [of "''a1''" default_message
      "\<lparr>id_auth = ''a1'', role = ADMIN\<rparr>" "Some ''delete''"]
  by (simp add: isDelete_def toUpperCase_delete)

section \<open>Properties of the storage model\<close>

lemma set_addToSet: "set (addToSet v xs) = insert v (set xs)"
  by (auto simp: addToSet_def)

lemma set_pull: "set (pull v xs) = set xs - {v}"
  by (auto simp: pull_def)

lemma addToSet_member: "v \<in> set xs \<Longrightarrow> addToSet v xs = xs"
  by (simp add: addToSet_def)

lemma pull_absent: "v \<notin> set xs \<Longrightarrow> pull v xs = xs"
  by (induction xs) (auto simp: pull_def)

lemma distinct_addToSet: "distinct xs \<Longrightarrow> distinct (addToSet v xs)"
  by (simp add: addToSet_def)

lemma distinct_pull: "distinct xs \<Longrightarrow> distinct (pull v xs)"
  by (simp add: pull_def)

lemma uid_applyUpdate: "uid (applyUpdate u d) = uid d"
  by (induction u d rule: applyUpdate.induct) simp_all

lemma lookupDoc_updateDoc:
  assumes "\<And>d. uid (f d) = uid d"
  shows "lookupDoc (updateDoc i f st) j =
           (if j = i then map_option f (lookupDoc st i) else lookupDoc st j)"
  using assms by (induction st) auto

lemma lookupDoc_applyUpdate:
  "lookupDoc (updateDoc i (applyUpdate u) st) j =
     (if j = i then map_option (applyUpdate u) (lookupDoc st i) else lookupDoc st j)"
  by (rule lookupDoc_updateDoc) (rule uid_applyUpdate)

lemma updateDoc_fixed:
  "(\<And>d. lookupDoc st i = Some d \<Longrightarrow> f d = d) \<Longrightarrow> updateDoc i f st = st"
  by (induction st) auto

lemma updateDoc_absent: "lookupDoc st i = None \<Longrightarrow> updateDoc i f st = st"
  by (rule updateDoc_fixed) simp

lemmas txn_defs =
  startSession_def startTransaction_def findByIdAndUpdate_def commitTransaction_def
  abortTransaction_def storageCall_def finish_def endSession_def Let_def

lemma followUser_outcome:
  "outcome (followUser flt st a b) =
     (if flt StartSession \<or> flt StartTransaction then Rejected
      else if flt (FindByIdAndUpdate b (AddToSet Followers a))
            \<or> flt (FindByIdAndUpdate a (AddToSet Following b))
      then (if flt AbortTransaction then Rejected else Returned False)
      else if flt CommitTransaction then Rejected
      else Returned True)"
  by (simp add: followUser_def txn_defs)

lemma followUser_store:
  "store (followUser flt st a b) =
     (if outcome (followUser flt st a b) = Returned True
      then updateDoc a (applyUpdate (AddToSet Following b))
             (updateDoc b (applyUpdate (AddToSet Followers a)) st)
      else st)"
  by (simp add: followUser_def txn_defs)

lemma removeFollow_outcome:
  "outcome (removeFollow flt st a b) =
     (if a = b then Returned False
      else if flt StartSession \<or> flt StartTransaction then Rejected
      else if flt (FindByIdAndUpdate b (Pull Followers a))
            \<or> flt (FindByIdAndUpdate a (Pull Following b))
      then (if flt AbortTransaction then Rejected else Returned False)
      else if flt CommitTransaction then Rejected
      else Returned True)"
  by (simp add: removeFollow_def txn_defs)

lemma removeFollow_store:
  "store (removeFollow flt st a b) =
     (if outcome (removeFollow flt st a b) = Returned True
      then updateDoc a (applyUpdate (Pull Following b))
             (updateDoc b (applyUpdate (Pull Followers a)) st)
      else st)"
  by (simp add: removeFollow_def txn_defs)

lemma followersOf_update:
  "followersOf (updateDoc i (applyUpdate u) st) x =
     (case u of
        AddToSet Followers v \<Rightarrow>
          if x = i \<and> lookupDoc st i \<noteq> None then insert v (followersOf st x) else followersOf st x
      | Pull Followers v \<Rightarrow> if x = i then followersOf st x - {v} else followersOf st x
      | _ \<Rightarrow> followersOf st x)"
  by (cases u; rename_tac f v; case_tac f)
     (auto simp: followersOf_def lookupDoc_applyUpdate set_addToSet set_pull split: option.splits)

lemma followingOf_update:
  "followingOf (updateDoc i (applyUpdate u) st) x =
     (case u of
        AddToSet Following v \<Rightarrow>
          if x = i \<and> lookupDoc st i \<noteq> None then insert v (followingOf st x) else followingOf st x
      | Pull Following v \<Rightarrow> if x = i then followingOf st x - {v} else followingOf st x
      | _ \<Rightarrow> followingOf st x)"
  by (cases u; rename_tac f v; case_tac f)
     (auto simp: followingOf_def lookupDoc_applyUpdate set_addToSet set_pull split: option.splits)

lemma uid_alice [simp]: "uid alice = ''alice''"
  by (simp add: alice_def)

lemma uid_bob [simp]: "uid bob = ''bob''"
  by (simp add: bob_def)

lemma followUser_no_faults_outcome: "outcome (followUser no_faults st a b) = Returned True"
  by (simp add: followUser_outcome no_faults_def)

lemma followUser_no_faults_store:
  "store (followUser no_faults st a b) =
     updateDoc a (applyUpdate (AddToSet Following b))
       (updateDoc b (applyUpdate (AddToSet Followers a)) st)"
  by (simp add: followUser_store followUser_no_faults_outcome)

lemma followUser_no_faults_calls:
  "calls (followUser no_faults st a b) =
     [StartSession, StartTransaction,
      FindByIdAndUpdate b (AddToSet Followers a),
      FindByIdAndUpdate a (AddToSet Following b),
      CommitTransaction, EndSession]"
  by (simp add: followUser_def txn_defs no_faults_def)

section \<open>Dual consistency of the follow graph\<close>

lemma dualConsistent_removeFollow:
  assumes "dualConsistent st"
  shows "dualConsistent (store (removeFollow flt st a b))"
proof (cases "outcome (removeFollow flt st a b) = Returned True")
  case False
  then show ?thesis using assms by (simp add: removeFollow_store)
next
  case True
  then have ne: "a \<noteq> b" by (auto simp: removeFollow_outcome split: if_splits)
  show ?thesis
    using assms ne True
    unfolding dualConsistent_def
    by (simp add: removeFollow_store followersOf_update followingOf_update)
qed

lemma dualConsistent_followUser:
  assumes "dualConsistent st" and "lookupDoc st a = None \<longleftrightarrow> lookupDoc st b = None"
  shows "dualConsistent (store (followUser flt st a b))"
proof (cases "outcome (followUser flt st a b) = Returned True")
  case False
  then show ?thesis using assms by (simp add: followUser_store)
next
  case True
  show ?thesis
  proof (cases "lookupDoc st a")
    case None
    then have "lookupDoc st b = None" using assms(2) by simp
    then show ?thesis using assms(1) None by (simp add: followUser_store updateDoc_absent)
  next
    case (Some u)
    then obtain v where "lookupDoc st b = Some v" using assms(2) by auto
    then show ?thesis
      using assms(1) Some True unfolding dualConsistent_def
      by (simp add: followUser_store followersOf_update followingOf_update lookupDoc_applyUpdate)
  qed
qed

lemma followersOf_followUser:
  assumes "outcome (followUser flt st a b) = Returned True"
  shows "followersOf (store (followUser flt st a b)) x =
           (if x = b \<and> lookupDoc st b \<noteq> None then insert a (followersOf st b)
            else followersOf st x)"
  using assms by (auto simp: followUser_store followersOf_update)

lemma followingOf_followUser:
  assumes "outcome (followUser flt st a b) = Returned True"
  shows "followingOf (store (followUser flt st a b)) x =
           (if x = a \<and> lookupDoc st a \<noteq> None then insert b (followingOf st a)
            else followingOf st x)"
  using assms by (auto simp: followUser_store followingOf_update lookupDoc_applyUpdate)

lemma followersOf_removeFollow:
  assumes "outcome (removeFollow flt st a b) = Returned True"
  shows "followersOf (store (removeFollow flt st a b)) x =
           (if x = b then followersOf st b - {a} else followersOf st x)"
  using assms by (simp add: removeFollow_store followersOf_update)

lemma followingOf_removeFollow:
  assumes "outcome (removeFollow flt st a b) = Returned True"
  shows "followingOf (store (removeFollow flt st a b)) x =
           (if x = a then followingOf st a - {b} else followingOf st x)"
  using assms by (simp add: removeFollow_store followingOf_update)

lemma dualConsistent_alice_bob: "dualConsistent [alice, bob]"
  by (simp add: dualConsistent_def followersOf_def followingOf_def alice_def bob_def)

lemma dualConsistent_alice_follows_bob: "dualConsistent alice_follows_bob"
  by (simp add: dualConsistent_def followersOf_def followingOf_def alice_follows_bob_def
      alice_def bob_def)

lemma follow_alice_bob:
  "store (followUser no_faults [alice, bob] ''alice'' ''bob'') = alice_follows_bob"
  by (simp add: followUser_no_faults_store alice_follows_bob_def)
     (simp add: alice_def bob_def addToSet_def)

lemma unfollow_alice_bob:
  "store (removeFollow no_faults alice_follows_bob ''alice'' ''bob'') = [alice, bob]"
  by (simp add: removeFollow_store removeFollow_outcome no_faults_def alice_follows_bob_def)
     (simp add: alice_def bob_def pull_def)

text \<open>
  C1 (as amended). Dual consistency, for every pair of distinct ids \<open>a\<close>, \<open>b\<close>:
  \<open>a\<close> is among the followers of \<open>b\<close> exactly when \<open>b\<close> is among the following of
  \<open>a\<close>. Every unfollow preserves it, whatever the storage does. Every follow preserves it
  when the documents of the actor and of the target both exist (or neither does). A
  follow between two existing documents that returns true has added the actor to the
  followers of the target and the target to the following of the actor, and changed the
  followers and the following of nobody else; an unfollow that returns true has removed
  both sides, and changed nothing else.
\<close>

theorem follow_unfollow_dualConsistent:
  assumes "dualConsistent st"
  shows "dualConsistent (store (removeFollow flt st a b)) \<and>
         ((lookupDoc st a = None \<longleftrightarrow> lookupDoc st b = None) \<longrightarrow>
            dualConsistent (store (followUser flt st a b))) \<and>
         (lookupDoc st a \<noteq> None \<and> lookupDoc st b \<noteq> None \<and>
          outcome (followUser flt st a b) = Returned True \<longrightarrow>
            followersOf (store (followUser flt st a b)) b = insert a (followersOf st b) \<and>
            followingOf (store (followUser flt st a b)) a = insert b (followingOf st a) \<and>
            (\<forall>x. x \<noteq> b \<longrightarrow> followersOf (store (followUser flt st a b)) x = followersOf st x) \<and>
            (\<forall>x. x \<noteq> a \<longrightarrow> followingOf (store (followUser flt st a b)) x = followingOf st x)) \<and>
         (outcome (removeFollow flt st a b) = Returned True \<longrightarrow>
            followersOf (store (removeFollow flt st a b)) b = followersOf st b - {a} \<and>
            followingOf (store (removeFollow flt st a b)) a = followingOf st a - {b} \<and>
            (\<forall>x. x \<noteq> b \<longrightarrow> followersOf (store (removeFollow flt st a b)) x = followersOf st x) \<and>
            (\<forall>x. x \<noteq> a \<longrightarrow> followingOf (store (removeFollow flt st a b)) x = followingOf st x))"
  using assms
  by (simp add: dualConsistent_removeFollow dualConsistent_followUser followersOf_followUser
      followingOf_followUser followersOf_removeFollow followingOf_removeFollow)

theorem follow_unfollow_dualConsistent_witness:
  "dualConsistent [alice, bob] \<and>
   lookupDoc [alice, bob] ''alice'' \<noteq> None \<and> lookupDoc [alice, bob] ''bob'' \<noteq> None \<and>
   outcome (followUser no_faults [alice, bob] ''alice'' ''bob'') = Returned True \<and>
   store (followUser no_faults [alice, bob] ''alice'' ''bob'') = alice_follows_bob \<and>
   followersOf alice_follows_bob ''bob'' = {''alice''} \<and>
   followingOf alice_follows_bob ''alice'' = {''bob''} \<and>
   dualConsistent alice_follows_bob \<and>
   outcome (removeFollow no_faults alice_follows_bob ''alice'' ''bob'') = Returned True \<and>
   store (removeFollow no_faults alice_follows_bob ''alice'' ''bob'') = [alice, bob] \<and>
   followersOf [alice, bob] ''bob'' = {} \<and>
   followingOf [alice, bob] ''alice'' = {}"
proof -
  note f = follow_unfollow_dualConsistent [OF dualConsistent_alice_bob, of no_faults
      "''alice''" "''bob''"]
  note r = follow_unfollow_dualConsistent [OF dualConsistent_alice_follows_bob, of no_faults
      "''alice''" "''bob''"]
  have l: "lookupDoc [alice, bob] ''alice'' \<noteq> None" "lookupDoc [alice, bob] ''bob'' \<noteq> None"
    by simp_all
  have o: "outcome (followUser no_faults [alice, bob] ''alice'' ''bob'') = Returned True"
    by (rule followUser_no_faults_outcome)
  have p: "outcome (removeFollow no_faults alice_follows_bob ''alice'' ''bob'') = Returned True"
    by (simp add: removeFollow_outcome no_faults_def)
  have e: "followersOf [alice, bob] ''bob'' = {}" "followingOf [alice, bob] ''alice'' = {}"
    by (simp_all add: followersOf_def followingOf_def alice_def bob_def)
  have g: "followersOf alice_follows_bob ''bob'' = {''alice''}"
    "followingOf alice_follows_bob ''alice'' = {''bob''}"
    by (simp_all add: followersOf_def followingOf_def alice_follows_bob_def alice_def bob_def)
  have 1: "followersOf (store (followUser no_faults [alice, bob] ''alice'' ''bob'')) ''bob''
             = insert ''alice'' (followersOf [alice, bob] ''bob'')"
    using f l o by simp
  have 2: "followersOf (store (removeFollow no_faults alice_follows_bob ''alice'' ''bob'')) ''bob''
             = followersOf alice_follows_bob ''bob'' - {''alice''}"
    using r p by simp
  show ?thesis
    using 1 2 l o p e g dualConsistent_alice_bob dualConsistent_alice_follows_bob
    by (simp add: follow_alice_bob unfollow_alice_bob)
qed

text \<open>
  The claim as stated fails when the target resolves to no document: the update of the
  target writes nothing and raises nothing, the transaction commits, and \<open>ghost\<close> is in
  the following of \<open>alice\<close> while \<open>alice\<close> is among nobody's followers.
\<close>

theorem followUser_missing_target_breaks_dualConsistent:
  "dualConsistent [alice] \<and>
   outcome (followUser no_faults [alice] ''alice'' ''ghost'') = Returned True \<and>
   \<not> dualConsistent (store (followUser no_faults [alice] ''alice'' ''ghost''))"
proof -
  have c: "dualConsistent [alice]"
    by (simp add: dualConsistent_def followersOf_def followingOf_def alice_def)
  have o: "outcome (followUser no_faults [alice] ''alice'' ''ghost'') = Returned True"
    by (simp add: followUser_outcome no_faults_def)
  have s: "store (followUser no_faults [alice] ''alice'' ''ghost'') = [alice\<lparr>following := [''ghost'']\<rparr>]"
    by (simp add: followUser_store o) (simp add: alice_def addToSet_def)
  have n: "\<not> dualConsistent [alice\<lparr>following := [''ghost'']\<rparr>]"
  proof
    assume d: "dualConsistent [alice\<lparr>following := [''ghost'']\<rparr>]"
    show False
      using d [unfolded dualConsistent_def, rule_format, of "''alice''" "''ghost''"]
      by (simp add: followersOf_def followingOf_def alice_def)
  qed
  show ?thesis using c o s n by simp
qed

section \<open>Atomicity of follow and unfollow\<close>





text \<open>
  A commit that raises sends the method into its \<open>catch\<close> block, where the abort of the
  session on which the commit was called raises in turn: the promise is rejected, with
  nothing written.
\<close>

lemma followUser_commit_fault:
  assumes "\<not> flt StartSession" and "\<not> flt StartTransaction"
    and "\<not> flt (FindByIdAndUpdate b (AddToSet Followers a))"
    and "\<not> flt (FindByIdAndUpdate a (AddToSet Following b))"
    and "flt CommitTransaction"
  shows "outcome (followUser flt st a b) = Rejected \<and> store (followUser flt st a b) = st"
  using assms by (simp add: followUser_store followUser_outcome)

lemma removeFollow_commit_fault:
  assumes "a \<noteq> b" and "\<not> flt StartSession" and "\<not> flt StartTransaction"
    and "\<not> flt (FindByIdAndUpdate b (Pull Followers a))"
    and "\<not> flt (FindByIdAndUpdate a (Pull Following b))"
    and "flt CommitTransaction"
  shows "outcome (removeFollow flt st a b) = Rejected \<and> store (removeFollow flt st a b) = st"
  using assms by (simp add: removeFollow_store removeFollow_outcome)




section \<open>Follow of a target without a document\<close>

text \<open>
  C4 (as amended). When the target id resolves to no document and the storage raises
  nothing, the follow does not abort: the transaction commits and the call returns true.
  The target is added to the following of the actor (when the actor has a document); no
  other document changes, and the actor is among nobody's followers.
\<close>

theorem followUser_missing_target_commits:
  assumes "lookupDoc st t = None"
  shows "outcome (followUser no_faults st a t) = Returned True \<and>
         store (followUser no_faults st a t) = updateDoc a (applyUpdate (AddToSet Following t)) st \<and>
         CommitTransaction \<in> set (calls (followUser no_faults st a t)) \<and>
         AbortTransaction \<notin> set (calls (followUser no_faults st a t)) \<and>
         (\<forall>u. lookupDoc st a = Some u \<longrightarrow>
            lookupDoc (store (followUser no_faults st a t)) a
              = Some (u\<lparr>following := addToSet t (following u)\<rparr>)) \<and>
         (\<forall>x. x \<noteq> a \<longrightarrow> lookupDoc (store (followUser no_faults st a t)) x = lookupDoc st x) \<and>
         (\<forall>x. followersOf (store (followUser no_faults st a t)) x = followersOf st x)"
  using assms
  by (simp add: followUser_no_faults_outcome followUser_no_faults_store
      followUser_no_faults_calls updateDoc_absent lookupDoc_applyUpdate followersOf_update)

theorem followUser_missing_target_commits_witness:
  "lookupDoc [alice] ''ghost'' = None \<and>
   outcome (followUser no_faults [alice] ''alice'' ''ghost'') = Returned True \<and>
   lookupDoc (store (followUser no_faults [alice] ''alice'' ''ghost'')) ''alice''
     = Some (alice\<lparr>following := [''ghost'']\<rparr>)"
proof -
  have h: "lookupDoc [alice] ''ghost'' = None"
    by (simp add: alice_def)
  have a: "lookupDoc [alice] ''alice'' = Some alice"
    by (simp add: alice_def)
  have f: "addToSet ''ghost'' (following alice) = [''ghost'']"
    by (simp add: alice_def addToSet_def)
  show ?thesis
    using followUser_missing_target_commits [OF h, of "''alice''"] h a f by simp
qed

text \<open>
  The claim as stated fails: for a target without a document the call returns true and
  the collection is changed.
\<close>

theorem followUser_missing_target_returns_true:
  "lookupDoc [alice] ''ghost'' = None \<and>
   outcome (followUser no_faults [alice] ''alice'' ''ghost'') = Returned True \<and>
   store (followUser no_faults [alice] ''alice'' ''ghost'') \<noteq> [alice]"
proof -
  have "store (followUser no_faults [alice] ''alice'' ''ghost'') = [alice\<lparr>following := [''ghost'']\<rparr>]"
    by (simp add: followUser_no_faults_store) (simp add: alice_def addToSet_def)
  then show ?thesis
    by (simp add: followUser_no_faults_outcome) (simp add: alice_def)
qed

section \<open>Storage failures in the read operations\<close>

text \<open>
  C5 (as amended). Each read operation catches a storage failure and returns its default:
  \<open>isFollowing\<close> returns false, \<open>findFollowers\<close> and \<open>findFollowing\<close> return the
  empty array, \<open>getFollowCounts\<close> returns null. These are the values the operations
  return without any failure on a collection that has no document for the ids, so the
  result alone does not tell a failure from "not following", "no followers" or "not found".
\<close>

theorem reads_swallow_storage_failure:
  "(flt (FindOne t u) \<longrightarrow> isFollowing flt st u t = False) \<and>
   (flt (FindById i) \<longrightarrow>
      findFollowers flt st i = [] \<and> findFollowing flt st i = [] \<and> getFollowCounts flt st i = None) \<and>
   (\<forall>d. lookupDoc st i = Some d \<and> flt (FindIn (followers d)) \<longrightarrow> findFollowers flt st i = []) \<and>
   (\<forall>d. lookupDoc st i = Some d \<and> flt (FindIn (following d)) \<longrightarrow> findFollowing flt st i = []) \<and>
   isFollowing no_faults [] u t = False \<and>
   findFollowers no_faults [] i = [] \<and> findFollowing no_faults [] i = [] \<and>
   getFollowCounts no_faults [] i = None"
  by (auto simp: isFollowing_def findFollowers_def findFollowing_def getFollowCounts_def
      no_faults_def)

theorem reads_swallow_storage_failure_witness:
  "isFollowing ((=) (FindOne ''carol'' ''alice'')) [alice, carol] ''alice'' ''carol'' = False \<and>
   findFollowers ((=) (FindById ''carol'')) [alice, carol] ''carol'' = [] \<and>
   getFollowCounts ((=) (FindById ''carol'')) [alice, carol] ''carol'' = None \<and>
   lookupDoc [alice, carol] ''carol'' = Some carol \<and>
   findFollowers ((=) (FindIn (followers carol))) [alice, carol] ''carol'' = []"
proof -
  have l: "lookupDoc [alice, carol] ''carol'' = Some carol"
    by (simp add: carol_def)
  note t1 = reads_swallow_storage_failure [of "(=) (FindOne ''carol'' ''alice'')" "''carol''"
      "''alice''" "[alice, carol]" "''carol''"]
  note t2 = reads_swallow_storage_failure [of "(=) (FindById ''carol'')" "''carol''"
      "''alice''" "[alice, carol]" "''carol''"]
  note t3 = reads_swallow_storage_failure [of "(=) (FindIn (followers carol))" "''carol''"
      "''alice''" "[alice, carol]" "''carol''"]
  have 1: "isFollowing ((=) (FindOne ''carol'' ''alice'')) [alice, carol] ''alice'' ''carol'' = False"
    using t1 [THEN conjunct1] by simp
  have 2: "findFollowers ((=) (FindById ''carol'')) [alice, carol] ''carol'' = [] \<and>
      findFollowing ((=) (FindById ''carol'')) [alice, carol] ''carol'' = [] \<and>
      getFollowCounts ((=) (FindById ''carol'')) [alice, carol] ''carol'' = None"
    using t2 [THEN conjunct2, THEN conjunct1] by simp
  have 3: "findFollowers ((=) (FindIn (followers carol))) [alice, carol] ''carol'' = []"
    using t3 [THEN conjunct2, THEN conjunct2, THEN conjunct1, rule_format, of carol] l by simp
  show ?thesis using 1 2 3 l by simp
qed

text \<open>
  The claim as stated fails: \<open>alice\<close> follows \<open>carol\<close>, and a failure of the store turns
  the answers true, one follower and the listing of \<open>alice\<close> into false, null and the
  empty array.
\<close>

theorem isFollowing_failure_reads_as_not_following:
  "isFollowing no_faults [alice, carol] ''alice'' ''carol'' = True \<and>
   isFollowing ((=) (FindOne ''carol'' ''alice'')) [alice, carol] ''alice'' ''carol'' = False \<and>
   isFollowing no_faults [alice, bob] ''alice'' ''bob'' = False \<and>
   getFollowCounts no_faults [alice, carol] ''carol''
     = Some \<lparr>followerCount = 1, followingCount = 0\<rparr> \<and>
   getFollowCounts ((=) (FindById ''carol'')) [alice, carol] ''carol'' = None \<and>
   findFollowers no_faults [alice, carol] ''carol''
     = [\<lparr>fu_id = ''alice'', fu_fullName = ''Alice'', fu_avatar = None\<rparr>] \<and>
   findFollowers ((=) (FindById ''carol'')) [alice, carol] ''carol'' = []"
  by (simp add: isFollowing_def getFollowCounts_def findFollowers_def summary_def no_faults_def
      alice_def bob_def carol_def)

section \<open>The guard of unfollow against the actor itself\<close>

text \<open>
  C6. An unfollow of oneself returns false without a single call on the store: no session,
  no transaction. A follow of oneself has no such guard: it starts a session and, once the
  transaction is started, issues the updates; when nothing raises it makes the same six
  calls as any other follow.
\<close>

theorem removeFollow_self_guard:
  "removeFollow flt st a a = \<lparr>outcome = Returned False, store = st, calls = []\<rparr> \<and>
   calls (followUser flt st a a) \<noteq> [] \<and>
   hd (calls (followUser flt st a a)) = StartSession \<and>
   (\<not> flt StartSession \<and> \<not> flt StartTransaction \<longrightarrow>
      FindByIdAndUpdate a (AddToSet Followers a) \<in> set (calls (followUser flt st a a))) \<and>
   calls (followUser no_faults st a a) =
     [StartSession, StartTransaction,
      FindByIdAndUpdate a (AddToSet Followers a),
      FindByIdAndUpdate a (AddToSet Following a),
      CommitTransaction, EndSession]"
  by (simp add: followUser_no_faults_calls) (simp add: removeFollow_def followUser_def txn_defs)

theorem removeFollow_self_guard_witness:
  "removeFollow no_faults [alice] ''alice'' ''alice''
     = \<lparr>outcome = Returned False, store = [alice], calls = []\<rparr> \<and>
   FindByIdAndUpdate ''alice'' (AddToSet Followers ''alice'')
     \<in> set (calls (followUser no_faults [alice] ''alice'' ''alice''))"
  using removeFollow_self_guard [of no_faults "[alice]" "''alice''"]
  by (simp add: no_faults_def)

section \<open>Idempotence of follow and unfollow\<close>

lemma followUser_commit_fixed:
  "updateDoc a (applyUpdate (AddToSet Following b))
     (updateDoc b (applyUpdate (AddToSet Followers a))
        (updateDoc a (applyUpdate (AddToSet Following b))
           (updateDoc b (applyUpdate (AddToSet Followers a)) st)))
   = updateDoc a (applyUpdate (AddToSet Following b))
       (updateDoc b (applyUpdate (AddToSet Followers a)) st)"
proof -
  let ?F = "applyUpdate (AddToSet Following b)"
  let ?G = "applyUpdate (AddToSet Followers a)"
  let ?W = "updateDoc a ?F (updateDoc b ?G st)"
  have g: "updateDoc b ?G ?W = ?W"
  proof (rule updateDoc_fixed)
    fix d assume "lookupDoc ?W b = Some d"
    then have "a \<in> set (followers d)"
      by (auto simp: lookupDoc_applyUpdate set_addToSet split: if_splits)
    then show "?G d = d" by (simp add: addToSet_member)
  qed
  have f: "updateDoc a ?F ?W = ?W"
  proof (rule updateDoc_fixed)
    fix d assume "lookupDoc ?W a = Some d"
    then have "b \<in> set (following d)"
      by (auto simp: lookupDoc_applyUpdate set_addToSet split: if_splits)
    then show "?F d = d" by (simp add: addToSet_member)
  qed
  show ?thesis by (simp only: g f)
qed

text \<open>
  C7. Following twice is following once: after a follow that returned true, a second
  follow of the same pair leaves the collection as the first left it, whatever the store
  does during the second call; with the store behaving as in the first call the second
  call gives the very same reply. The followers, the following and the follow counts of
  every id are those after the first call.
\<close>

theorem followUser_idempotent:
  assumes "outcome (followUser flt st a b) = Returned True"
  shows "store (followUser flt' (store (followUser flt st a b)) a b) = store (followUser flt st a b) \<and>
         followUser flt (store (followUser flt st a b)) a b = followUser flt st a b \<and>
         followersOf (store (followUser flt' (store (followUser flt st a b)) a b)) x
           = followersOf (store (followUser flt st a b)) x \<and>
         followingOf (store (followUser flt' (store (followUser flt st a b)) a b)) x
           = followingOf (store (followUser flt st a b)) x \<and>
         getFollowCounts flt'' (store (followUser flt' (store (followUser flt st a b)) a b)) x
           = getFollowCounts flt'' (store (followUser flt st a b)) x"
proof -
  have s1: "store (followUser flt st a b) =
      updateDoc a (applyUpdate (AddToSet Following b))
        (updateDoc b (applyUpdate (AddToSet Followers a)) st)"
    using assms by (simp add: followUser_store)
  have s2: "store (followUser flt' (store (followUser flt st a b)) a b) = store (followUser flt st a b)"
    by (simp add: followUser_store [of flt'] s1 followUser_commit_fixed)
  have o2: "outcome (followUser flt (store (followUser flt st a b)) a b) = Returned True"
    using assms by (simp add: followUser_outcome)
  have c2: "calls (followUser flt (store (followUser flt st a b)) a b) = calls (followUser flt st a b)"
    by (simp add: followUser_def txn_defs)
  have s3: "store (followUser flt (store (followUser flt st a b)) a b) = store (followUser flt st a b)"
    by (simp add: followUser_store [of flt] s1 followUser_commit_fixed)
  have r: "followUser flt (store (followUser flt st a b)) a b = followUser flt st a b"
    using o2 c2 s3 assms by (simp add: reply.equality)
  show ?thesis using s2 r by simp
qed

theorem followUser_idempotent_witness:
  "outcome (followUser no_faults [alice, bob] ''alice'' ''bob'') = Returned True \<and>
   store (followUser no_faults (store (followUser no_faults [alice, bob] ''alice'' ''bob''))
            ''alice'' ''bob'')
     = [alice\<lparr>following := [''bob'']\<rparr>, bob\<lparr>followers := [''alice'']\<rparr>] \<and>
   getFollowCounts no_faults
       (store (followUser no_faults (store (followUser no_faults [alice, bob] ''alice'' ''bob''))
            ''alice'' ''bob'')) ''bob''
     = Some \<lparr>followerCount = 1, followingCount = 0\<rparr>"
proof -
  have o: "outcome (followUser no_faults [alice, bob] ''alice'' ''bob'') = Returned True"
    by (rule followUser_no_faults_outcome)
  have c: "getFollowCounts no_faults [alice\<lparr>following := [''bob'']\<rparr>, bob\<lparr>followers := [''alice'']\<rparr>] ''bob''
     = Some \<lparr>followerCount = 1, followingCount = 0\<rparr>"
    by (simp add: getFollowCounts_def no_faults_def) (simp add: bob_def)
  show ?thesis
    using followUser_idempotent [OF o, of no_faults "''bob''" no_faults] o c
    by (simp add: follow_alice_bob alice_follows_bob_def)
qed

text \<open>
  C8. For distinct ids, an unfollow of an edge that does not exist changes nothing and,
  when nothing raises, commits and returns true. After an unfollow that returned true the
  edge does not exist, so unfollowing again changes nothing either.
\<close>

theorem removeFollow_absent_edge:
  assumes "a \<noteq> b"
  shows "(a \<notin> followersOf st b \<and> b \<notin> followingOf st a \<longrightarrow>
            store (removeFollow flt st a b) = st \<and>
            removeFollow no_faults st a b =
              \<lparr>outcome = Returned True, store = st,
               calls = [StartSession, StartTransaction,
                        FindByIdAndUpdate b (Pull Followers a),
                        FindByIdAndUpdate a (Pull Following b),
                        CommitTransaction, EndSession]\<rparr>) \<and>
         (outcome (removeFollow flt st a b) = Returned True \<longrightarrow>
            a \<notin> followersOf (store (removeFollow flt st a b)) b \<and>
            b \<notin> followingOf (store (removeFollow flt st a b)) a \<and>
            store (removeFollow flt' (store (removeFollow flt st a b)) a b)
              = store (removeFollow flt st a b))"
proof -
  let ?F = "applyUpdate (Pull Following b)"
  let ?G = "applyUpdate (Pull Followers a)"
  have fixed: "updateDoc a ?F (updateDoc b ?G s) = s"
    if "a \<notin> followersOf s b" and "b \<notin> followingOf s a" for s
  proof -
    have g: "updateDoc b ?G s = s"
    proof (rule updateDoc_fixed)
      fix d assume "lookupDoc s b = Some d"
      then have "a \<notin> set (followers d)" using that(1) by (simp add: followersOf_def)
      then show "?G d = d" by (simp add: pull_absent)
    qed
    have f: "updateDoc a ?F s = s"
    proof (rule updateDoc_fixed)
      fix d assume "lookupDoc s a = Some d"
      then have "b \<notin> set (following d)" using that(2) by (simp add: followingOf_def)
      then show "?F d = d" by (simp add: pull_absent)
    qed
    show ?thesis by (simp only: g f)
  qed
  have unchanged: "store (removeFollow f s a b) = s"
    if "a \<notin> followersOf s b" and "b \<notin> followingOf s a" for f s
    using that by (simp add: removeFollow_store fixed)
  have part1: "store (removeFollow flt st a b) = st \<and>
            removeFollow no_faults st a b =
              \<lparr>outcome = Returned True, store = st,
               calls = [StartSession, StartTransaction,
                        FindByIdAndUpdate b (Pull Followers a),
                        FindByIdAndUpdate a (Pull Following b),
                        CommitTransaction, EndSession]\<rparr>"
    if h: "a \<notin> followersOf st b \<and> b \<notin> followingOf st a"
  proof -
    have o: "outcome (removeFollow no_faults st a b) = Returned True"
      using assms by (simp add: removeFollow_outcome no_faults_def)
    have c: "calls (removeFollow no_faults st a b) =
        [StartSession, StartTransaction, FindByIdAndUpdate b (Pull Followers a),
         FindByIdAndUpdate a (Pull Following b), CommitTransaction, EndSession]"
      using assms by (simp add: removeFollow_def txn_defs no_faults_def)
    show ?thesis
      using h o c unchanged [of st flt] unchanged [of st no_faults]
      by (simp add: reply.equality)
  qed
  have part2: "a \<notin> followersOf (store (removeFollow flt st a b)) b \<and>
            b \<notin> followingOf (store (removeFollow flt st a b)) a \<and>
            store (removeFollow flt' (store (removeFollow flt st a b)) a b)
              = store (removeFollow flt st a b)"
    if t: "outcome (removeFollow flt st a b) = Returned True"
  proof -
    have 1: "a \<notin> followersOf (store (removeFollow flt st a b)) b"
      using t assms by (simp add: removeFollow_store followersOf_update)
    have 2: "b \<notin> followingOf (store (removeFollow flt st a b)) a"
      using t assms by (simp add: removeFollow_store followingOf_update)
    show ?thesis using 1 2 unchanged [OF 1 2, of flt'] by simp
  qed
  show ?thesis using part1 part2 by blast
qed

theorem removeFollow_absent_edge_witness:
  "''alice'' \<noteq> ''bob'' \<and>
   ''alice'' \<notin> followersOf [alice, bob] ''bob'' \<and>
   ''bob'' \<notin> followingOf [alice, bob] ''alice'' \<and>
   outcome (removeFollow no_faults [alice, bob] ''alice'' ''bob'') = Returned True \<and>
   store (removeFollow no_faults [alice, bob] ''alice'' ''bob'') = [alice, bob]"
proof -
  have n: "''alice'' \<noteq> ''bob''" by simp
  have h: "''alice'' \<notin> followersOf [alice, bob] ''bob'' \<and> ''bob'' \<notin> followingOf [alice, bob] ''alice''"
    by (simp add: followersOf_def followingOf_def) (simp add: alice_def bob_def)
  show ?thesis
    using conjunct1 [OF removeFollow_absent_edge [OF n, of "[alice, bob]" no_faults]] h n by simp
qed

section \<open>Follow counts\<close>

lemma distinct_applyUpdate:
  "distinct (followers x) \<and> distinct (following x) \<Longrightarrow>
     distinct (followers (applyUpdate u x)) \<and> distinct (following (applyUpdate u x))"
  by (induction u x rule: applyUpdate.induct) (simp_all add: distinct_addToSet distinct_pull)

lemma setSemantics_updateDoc:
  "setSemantics st \<Longrightarrow> setSemantics (updateDoc i (applyUpdate u) st)"
  unfolding setSemantics_def
  by (induction st) (simp_all add: distinct_applyUpdate)

lemma setSemantics_followUser:
  "setSemantics st \<Longrightarrow> setSemantics (store (followUser flt st a b))"
  by (simp add: followUser_store setSemantics_updateDoc)

lemma setSemantics_removeFollow:
  "setSemantics st \<Longrightarrow> setSemantics (store (removeFollow flt st a b))"
  by (simp add: removeFollow_store setSemantics_updateDoc)

text \<open>
  C9. When the read of the store succeeds, \<open>getFollowCounts\<close> returns null for an id
  without a document, and for an id with a document the lengths of its two arrays, which
  are the cardinalities of its followers and following sets as the arrays list no id
  twice (follow and unfollow keep them so).
\<close>

theorem getFollowCounts_cardinalities:
  assumes "\<not> flt (FindById i)"
  shows "(lookupDoc st i = None \<longrightarrow> getFollowCounts flt st i = None) \<and>
         (\<forall>u. lookupDoc st i = Some u \<longrightarrow>
            getFollowCounts flt st i
              = Some \<lparr>followerCount = length (followers u), followingCount = length (following u)\<rparr> \<and>
            (distinct (followers u) \<and> distinct (following u) \<longrightarrow>
               getFollowCounts flt st i
                 = Some \<lparr>followerCount = card (followersOf st i),
                         followingCount = card (followingOf st i)\<rparr>))"
  using assms
  by (simp add: getFollowCounts_def followersOf_def followingOf_def distinct_card)

theorem getFollowCounts_cardinalities_witness:
  "\<not> no_faults (FindById ''carol'') \<and> \<not> no_faults (FindById ''ghost'') \<and>
   lookupDoc [alice, carol] ''carol'' = Some carol \<and>
   lookupDoc [alice, carol] ''ghost'' = None \<and>
   distinct (followers carol) \<and> distinct (following carol) \<and>
   getFollowCounts no_faults [alice, carol] ''carol''
     = Some \<lparr>followerCount = 1, followingCount = 0\<rparr> \<and>
   getFollowCounts no_faults [alice, carol] ''ghost'' = None"
proof -
  have f: "\<not> no_faults (FindById ''carol'')" "\<not> no_faults (FindById ''ghost'')"
    by (simp_all add: no_faults_def)
  have l: "lookupDoc [alice, carol] ''carol'' = Some carol" "lookupDoc [alice, carol] ''ghost'' = None"
    by (simp_all add: carol_def)
  have d: "distinct (followers carol)" "distinct (following carol)"
    "length (followers carol) = 1" "length (following carol) = 0"
    by (simp_all add: carol_def)
  show ?thesis
    using getFollowCounts_cardinalities [of no_faults "''carol''" "[alice, carol]"]
      getFollowCounts_cardinalities [of no_faults "''ghost''" "[alice, carol]"] f l d
    by simp
qed

section \<open>Follow of oneself\<close>

text \<open>
  C10 (as amended). A follow of oneself is not rejected: for an id that has a document,
  when nothing raises the transaction commits and the call returns true; and whenever the
  call returns true the id is afterwards in both the followers and the following of its
  own document, while no other document changes. Dual consistency is kept.
\<close>

theorem followUser_self_edge:
  assumes "lookupDoc st a = Some u"
  shows "outcome (followUser no_faults st a a) = Returned True \<and>
         CommitTransaction \<in> set (calls (followUser no_faults st a a)) \<and>
         (outcome (followUser flt st a a) = Returned True \<longrightarrow>
            lookupDoc (store (followUser flt st a a)) a
              = Some (u\<lparr>followers := addToSet a (followers u),
                         following := addToSet a (following u)\<rparr>) \<and>
            a \<in> followersOf (store (followUser flt st a a)) a \<and>
            a \<in> followingOf (store (followUser flt st a a)) a \<and>
            (\<forall>x. x \<noteq> a \<longrightarrow> lookupDoc (store (followUser flt st a a)) x = lookupDoc st x)) \<and>
         (dualConsistent st \<longrightarrow> dualConsistent (store (followUser flt st a a)))"
proof -
  have d: "dualConsistent st \<longrightarrow> dualConsistent (store (followUser flt st a a))"
    by (simp add: dualConsistent_followUser)
  have c: "outcome (followUser flt st a a) = Returned True \<longrightarrow>
            lookupDoc (store (followUser flt st a a)) a
              = Some (u\<lparr>followers := addToSet a (followers u),
                         following := addToSet a (following u)\<rparr>) \<and>
            a \<in> followersOf (store (followUser flt st a a)) a \<and>
            a \<in> followingOf (store (followUser flt st a a)) a \<and>
            (\<forall>x. x \<noteq> a \<longrightarrow> lookupDoc (store (followUser flt st a a)) x = lookupDoc st x)"
    using assms
    by (simp add: followUser_store lookupDoc_applyUpdate followersOf_def followingOf_def
        set_addToSet)
  show ?thesis
    using c d by (simp add: followUser_no_faults_outcome followUser_no_faults_calls)
qed

theorem followUser_self_edge_witness:
  "lookupDoc [alice, bob] ''alice'' = Some alice \<and>
   dualConsistent [alice, bob] \<and>
   outcome (followUser no_faults [alice, bob] ''alice'' ''alice'') = Returned True \<and>
   lookupDoc (store (followUser no_faults [alice, bob] ''alice'' ''alice'')) ''alice''
     = Some (alice\<lparr>followers := [''alice''], following := [''alice'']\<rparr>) \<and>
   dualConsistent (store (followUser no_faults [alice, bob] ''alice'' ''alice''))"
proof -
  have l: "lookupDoc [alice, bob] ''alice'' = Some alice"
    by simp
  have e: "addToSet ''alice'' (followers alice) = [''alice'']"
    "addToSet ''alice'' (following alice) = [''alice'']"
    by (simp_all add: alice_def addToSet_def)
  show ?thesis
    using followUser_self_edge [OF l, of no_faults] l e dualConsistent_alice_bob by simp
qed

text \<open>
  The claim as stated, for every id, fails for an id that has no document: the follow of
  oneself commits and returns true, and writes nothing, so that no self-edge exists
  afterwards.
\<close>

theorem followUser_self_without_record:
  "lookupDoc [alice] ''ghost'' = None \<and>
   outcome (followUser no_faults [alice] ''ghost'' ''ghost'') = Returned True \<and>
   store (followUser no_faults [alice] ''ghost'' ''ghost'') = [alice] \<and>
   ''ghost'' \<notin> followersOf (store (followUser no_faults [alice] ''ghost'' ''ghost'')) ''ghost'' \<and>
   ''ghost'' \<notin> followingOf (store (followUser no_faults [alice] ''ghost'' ''ghost'')) ''ghost''"
proof -
  have l: "lookupDoc [alice] ''ghost'' = None"
    by simp
  have s: "store (followUser no_faults [alice] ''ghost'' ''ghost'') = [alice]"
    by (simp add: followUser_no_faults_store)
  show ?thesis
    using l s by (simp add: followUser_no_faults_outcome followersOf_def followingOf_def)
qed

end
